theory Spec2Isabelle
  imports Main "HOL-Library.Sublist"
begin

section \<open>Python values used by main.py\<close>

text \<open>
  A Python \<open>str\<close> is a sequence of Unicode code points, and \<open>len\<close>, slicing,
  \<open>strip\<close>, \<open>split\<close> and \<open>splitlines\<close> all work on code points. A text is therefore a
  list of code points (natural numbers); \<open>lit\<close> turns an ASCII literal of the source into
  such a text.
\<close>

type_synonym pystr = "nat list"

definition lit :: "string \<Rightarrow> pystr" where
  "lit s = map of_char s"

text \<open>
  The characters \<open>str.strip()\<close> removes (those for which \<open>str.isspace\<close> holds):
  U+0009..U+000D, U+001C..U+0020, U+0085, U+00A0, U+1680, U+2000..U+200A, U+2028, U+2029,
  U+202F, U+205F, U+3000.
\<close>

definition is_space :: "nat \<Rightarrow> bool" where
  "is_space c \<longleftrightarrow>
     (9 \<le> c \<and> c \<le> 13) \<or> (28 \<le> c \<and> c \<le> 32) \<or> c = 133 \<or> c = 160 \<or> c = 5760 \<or>
     (8192 \<le> c \<and> c \<le> 8202) \<or> c = 8232 \<or> c = 8233 \<or> c = 8239 \<or> c = 8287 \<or> c = 12288"

text \<open>
  The line boundaries of \<open>str.splitlines()\<close>: LF, VT, FF, CR, FS, GS, RS, NEL, LS, PS
  (and the pair CR LF, which counts as one boundary).
\<close>

definition is_linebreak :: "nat \<Rightarrow> bool" where
  "is_linebreak c \<longleftrightarrow>
     (10 \<le> c \<and> c \<le> 13) \<or> (28 \<le> c \<and> c \<le> 30) \<or> c = 133 \<or> c = 8232 \<or> c = 8233"

text \<open>\<open>s.strip()\<close>: leading and trailing whitespace removed.\<close>

definition strip :: "pystr \<Rightarrow> pystr" where
  "strip s = rev (dropWhile is_space (rev (dropWhile is_space s)))"

text \<open>
  \<open>s.splitlines()\<close>: the lines of \<open>s\<close> without their boundaries; the empty text has
  no line, and a boundary at the very end opens no further line.
\<close>

definition cons_line :: "nat \<Rightarrow> pystr list \<Rightarrow> pystr list" where
  "cons_line c ls = (case ls of [] \<Rightarrow> [[c]] | l # ls' \<Rightarrow> (c # l) # ls')"

fun splitlines :: "pystr \<Rightarrow> pystr list" where
  "splitlines [] = []"
| "splitlines [c] = (if is_linebreak c then [[]] else [[c]])"
| "splitlines (c # d # cs) =
     (if c = 13 \<and> d = 10 then [] # splitlines cs
      else if is_linebreak c then [] # splitlines (d # cs)
      else cons_line c (splitlines (d # cs)))"

text \<open>
  \<open>line.split("  ")\<close>: the pieces between the occurrences of two spaces, found from the
  left without overlap; the result always has at least one piece.
\<close>

fun split_two_spaces :: "pystr \<Rightarrow> pystr list" where
  "split_two_spaces [] = [[]]"
| "split_two_spaces [c] = [[c]]"
| "split_two_spaces (c # d # cs) =
     (if c = 32 \<and> d = 32 then [] # split_two_spaces cs
      else cons_line c (split_two_spaces (d # cs)))"

text \<open>\<open>sep.join(xs)\<close>.\<close>

fun join :: "pystr \<Rightarrow> pystr list \<Rightarrow> pystr" where
  "join sep [] = []"
| "join sep [x] = x"
| "join sep (x # y # ys) = x @ sep @ join sep (y # ys)"

text \<open>\<open>str(n)\<close> for an integer: its decimal digits, with a minus sign when negative.\<close>

fun str_nat :: "nat \<Rightarrow> pystr" where
  "str_nat n = (if n < 10 then [48 + n] else str_nat (n div 10) @ [48 + n mod 10])"

declare str_nat.simps [simp del]

definition str_int :: "int \<Rightarrow> pystr" where
  "str_int i = (if i < 0 then 45 # str_nat (nat (- i)) else str_nat (nat i))"

text \<open>
  The arguments of a tool call are dynamically typed: the checks \<open>isinstance(query, str)\<close>
  and \<open>isinstance(limit, int)\<close> are part of the code. \<open>bool\<close> is a subclass of \<open>int\<close> in
  Python, so \<open>True\<close> and \<open>False\<close> pass \<open>isinstance(_, int)\<close> with the values 1 and 0.
\<close>

datatype pyval = VStr pystr | VInt int | VBool bool | VNone

fun as_int :: "pyval \<Rightarrow> int option" where
  "as_int (VInt n) = Some n"
| "as_int (VBool b) = Some (if b then 1 else 0)"
| "as_int _ = None"

text \<open>
  Exceptions. \<open>TimeoutException\<close> and \<open>HTTPStatusError\<close> are httpx's classes; the latter is
  what \<open>response.raise_for_status()\<close> raises for a response that is not a success, and
  carries the response's status code and reason phrase. \<open>OtherException\<close> stands for every
  other subclass of \<open>Exception\<close>. Each carries the text \<open>str(e)\<close> gives, except \<open>KeyError\<close>,
  which carries the missing key.
\<close>

datatype exn =
    TimeoutException pystr
  | HTTPStatusError int pystr pystr
  | ValueError pystr
  | KeyError string
  | OtherException pystr

fun str_exn :: "exn \<Rightarrow> pystr" where
  "str_exn (TimeoutException m) = m"
| "str_exn (HTTPStatusError code reason m) = m"
| "str_exn (ValueError m) = m"
| "str_exn (KeyError k) = 39 # lit k @ [39]"
| "str_exn (OtherException m) = m"

text \<open>
  A Python \<open>dict\<close> with text keys and text values, in insertion order. \<open>d[k]\<close> raises
  \<open>KeyError\<close> for a missing key; \<open>d[k] = v\<close> replaces the value of a present key in place
  and appends a new key at the end.
\<close>

type_synonym pydict = "(string \<times> pystr) list"

definition dict_get :: "pydict \<Rightarrow> string \<Rightarrow> exn + pystr" where
  "dict_get d k = (case map_of d k of None \<Rightarrow> Inl (KeyError k) | Some v \<Rightarrow> Inr v)"

fun dict_set :: "pydict \<Rightarrow> string \<Rightarrow> pystr \<Rightarrow> pydict" where
  "dict_set [] k v = [(k, v)]"
| "dict_set (p # ps) k v = (if fst p = k then (k, v) # ps else p # dict_set ps k v)"

text \<open>\<open>xs[:limit]\<close>: a negative bound counts from the end.\<close>

definition slice_to :: "'a list \<Rightarrow> int \<Rightarrow> 'a list" where
  "slice_to xs limit =
     (if 0 \<le> limit then take (nat limit) xs else take (length xs - nat (- limit)) xs)"

section \<open>The network\<close>

text \<open>
  httpx and BeautifulSoup are outside the repository. What the code sees of them is, for
  each request URL, either an exception raised somewhere in the \<open>try\<close> block, or what
  the selectors return on the parsed page:

  \<^item> for the search page, the \<open>.result__body\<close> elements in document order, each with the
    \<open>get_text()\<close> of its first \<open>.result__a\<close>, \<open>.result__url\<close> and \<open>.result__snippet\<close>
    descendant (\<open>None\<close> where \<open>select_one\<close> finds no such element; an element that is
    found is truthy whatever its text);
  \<^item> for a fetched page, the \<open>get_text()\<close> of the chosen content region after the
    script, style, nav, header, footer and aside elements have been removed.

  In \<open>fetch_url\<close> the \<open>try\<close> block begins with a \<open>print\<close> of the request URL (line 79),
  which can itself raise (\<open>UnicodeEncodeError\<close> for a URL that standard output cannot
  encode, such as one with a lone surrogate). \<open>print_raised\<close> tells, for a request URL
  whose block raised, whether the exception came from that \<open>print\<close>: then nothing was
  printed and \<open>client.get\<close> was never called.

  The effects are recorded as a list of events, oldest first: \<open>HttpGet u\<close> is a call of
  \<open>client.get\<close> with the URL \<open>u\<close>, \<open>Print s\<close> a line written to standard output.
\<close>

record fragment =
  title_elem :: "pystr option"
  url_elem :: "pystr option"
  snippet_elem :: "pystr option"

record env =
  search_get :: "pystr \<Rightarrow> exn + fragment list"
  page_get :: "pystr \<Rightarrow> exn + pystr"
  print_raised :: "pystr \<Rightarrow> bool"

datatype event = HttpGet pystr | Print pystr

text \<open>
  An environment that answers every search request and every page request the same way,
  and in which \<open>print\<close> never raises.
\<close>

definition const_env :: "exn + fragment list \<Rightarrow> exn + pystr \<Rightarrow> env" where
  "const_env s p =
     \<lparr>search_get = (\<lambda>u. s), page_get = (\<lambda>u. p), print_raised = (\<lambda>u. False)\<rparr>"


section \<open>search_duckduckgo\<close>

definition DUCKDUCKGO_URL :: pystr where
  "DUCKDUCKGO_URL = lit ''https://html.duckduckgo.com/html/''"

text \<open>\<open>query.replace(" ", "+")\<close> and the request URL built from it.\<close>

definition formatted_query :: "pystr \<Rightarrow> pystr" where
  "formatted_query query = map (\<lambda>c. if c = 32 then 43 else c) query"

definition search_url :: "pystr \<Rightarrow> pystr" where
  "search_url query = DUCKDUCKGO_URL @ lit ''?q='' @ formatted_query query"

text \<open>The test \<open>title_elem and url_elem\<close> and the dictionary built when it holds.\<close>

definition has_both :: "fragment \<Rightarrow> bool" where
  "has_both r \<longleftrightarrow> title_elem r \<noteq> None \<and> url_elem r \<noteq> None"

definition result_dict :: "fragment \<Rightarrow> pydict" where
  "result_dict r =
     [(''title'', strip (case title_elem r of Some t \<Rightarrow> t | None \<Rightarrow> [])),
      (''url'', strip (case url_elem r of Some u \<Rightarrow> u | None \<Rightarrow> [])),
      (''snippet'', (case snippet_elem r of Some s \<Rightarrow> strip s | None \<Rightarrow> []))]"

text \<open>The loop over \<open>result_elements[:limit]\<close>, appending to \<open>results\<close>.\<close>

fun extract_loop :: "pydict list \<Rightarrow> fragment list \<Rightarrow> pydict list" where
  "extract_loop results [] = results"
| "extract_loop results (r # rs) =
     extract_loop (if has_both r then results @ [result_dict r] else results) rs"

text \<open>The body of the \<open>try\<close> block: an exception leaves it as \<open>Inl\<close>.\<close>

definition search_body :: "env \<Rightarrow> pystr \<Rightarrow> int \<Rightarrow> exn + pydict list" where
  "search_body env query limit =
     (case search_get env (search_url query) of
        Inl e \<Rightarrow> Inl e
      | Inr result_elements \<Rightarrow> Inr (extract_loop [] (slice_to result_elements limit)))"

text \<open>The function with its two handlers; the one request it makes is logged.\<close>

definition search_duckduckgo :: "env \<Rightarrow> pystr \<Rightarrow> int \<Rightarrow> (exn + pydict list) \<times> event list" where
  "search_duckduckgo env query limit =
     ((case search_body env query limit of
         Inr results \<Rightarrow> Inr results
       | Inl (TimeoutException m) \<Rightarrow> Inr [[(''error'', lit ''Request timed out'')]]
       | Inl e \<Rightarrow> Inr [[(''error'', lit ''Search failed: '' @ str_exn e)]]),
      [HttpGet (search_url query)])"

section \<open>fetch_url\<close>

text \<open>Lines 63 to 65: the URL the request goes to.\<close>

definition request_url :: "pystr \<Rightarrow> pystr" where
  "request_url url =
     (if \<not> (prefix (lit ''http://'') url \<or> prefix (lit ''https://'') url)
      then lit ''https://'' @ url else url)"

text \<open>Lines 99 to 101: the clean-up of the extracted text.\<close>

definition normalize :: "pystr \<Rightarrow> pystr" where
  "normalize text =
     (let lines = map strip (splitlines text);
          chunks = concat (map (\<lambda>line. map strip (split_two_spaces line)) lines)
      in join [32] (filter (\<lambda>chunk. chunk \<noteq> []) chunks))"

text \<open>Lines 104 and 105: the bound on the length.\<close>

definition truncation_marker :: pystr where
  "truncation_marker = lit ''... [content truncated]''"

definition truncate :: "pystr \<Rightarrow> pystr" where
  "truncate text = (if length text > 10000 then take 10000 text @ truncation_marker else text)"

definition fetch_body :: "env \<Rightarrow> pystr \<Rightarrow> exn + pystr" where
  "fetch_body env url' =
     (case page_get env url' of
        Inl e \<Rightarrow> Inl e
      | Inr text \<Rightarrow> Inr (truncate (normalize text)))"

text \<open>
  Whether the \<open>try\<close> block gets as far as \<open>client.get\<close>: always, unless the block
  raised and the exception was that of the \<open>print\<close> before it.
\<close>

definition request_made :: "env \<Rightarrow> pystr \<Rightarrow> bool" where
  "request_made env url' =
     (case page_get env url' of Inl e \<Rightarrow> \<not> print_raised env url' | Inr text \<Rightarrow> True)"

definition fetch_url :: "env \<Rightarrow> pystr \<Rightarrow> (exn + pystr) \<times> event list" where
  "fetch_url env url =
     (let url' = request_url url in
      ((case fetch_body env url' of
          Inr text \<Rightarrow> Inr text
        | Inl (TimeoutException m) \<Rightarrow>
            Inr (lit ''Error: Request timed out while fetching the webpage'')
        | Inl (HTTPStatusError code reason m) \<Rightarrow>
            Inr (lit ''Error: HTTP '' @ str_int code @ lit '' - '' @ reason)
        | Inl e \<Rightarrow> Inr (lit ''Error: Failed to fetch webpage - '' @ str_exn e)),
       (if request_made env url'
        then [Print (lit ''Fetching content from: '' @ url'), HttpGet url'] else [])))"

section \<open>search_and_fetch\<close>

text \<open>
  Line 147: the list comprehension evaluates \<open>item["url"]\<close> for every item before any
  coroutine runs, so a missing key raises before the first fetch.
\<close>

fun fetch_targets :: "pydict list \<Rightarrow> exn + pystr list" where
  "fetch_targets [] = Inr []"
| "fetch_targets (item # items) =
     (case dict_get item ''url'' of
        Inl e \<Rightarrow> Inl e
      | Inr u \<Rightarrow> (case fetch_targets items of Inl e \<Rightarrow> Inl e | Inr us \<Rightarrow> Inr (u # us)))"

text \<open>
  Line 150: \<open>asyncio.gather\<close> runs every task and returns their results in the order of
  the tasks; an exception of a task would be raised from it. The events of the tasks are
  logged in the order of the tasks.
\<close>

fun gather :: "env \<Rightarrow> pystr list \<Rightarrow> (exn + pystr list) \<times> event list" where
  "gather env [] = (Inr [], [])"
| "gather env (u # us) =
     (let (r, log1) = fetch_url env u; (rs, log2) = gather env us
      in ((case r of
             Inl e \<Rightarrow> Inl e
           | Inr s \<Rightarrow> (case rs of Inl e \<Rightarrow> Inl e | Inr ss \<Rightarrow> Inr (s # ss))),
          log1 @ log2))"

text \<open>Lines 153 and 154: \<open>item["summary"] = summary\<close> over the zipped lists.\<close>

definition assign_summaries :: "pydict list \<Rightarrow> pystr list \<Rightarrow> pydict list" where
  "assign_summaries results summaries =
     map (\<lambda>(item, summary). dict_set item ''summary'' summary) (zip results summaries)
     @ drop (length summaries) results"

text \<open>Lines 143 to 156: what \<open>search_and_fetch\<close> does with the outcome of the search.\<close>

definition after_search ::
  "env \<Rightarrow> pystr \<Rightarrow> (exn + pydict list) \<times> event list \<Rightarrow> (exn + pydict list) \<times> event list" where
  "after_search env query searched =
     (case searched of
        (Inl e, log1) \<Rightarrow> (Inl e, log1)
      | (Inr results, log1) \<Rightarrow>
          if results = [] then
            (Inr [[(''message'', lit ''No results found for '' @ [39] @ query @ [39])]], log1)
          else
            (case fetch_targets results of
               Inl e \<Rightarrow> (Inl e, log1)
             | Inr urls \<Rightarrow>
                 (case gather env urls of
                    (Inl e, log2) \<Rightarrow> (Inl e, log1 @ log2)
                  | (Inr summaries, log2) \<Rightarrow>
                      (Inr (assign_summaries results summaries), log1 @ log2))))"

definition search_and_fetch :: "env \<Rightarrow> pyval \<Rightarrow> pyval \<Rightarrow> (exn + pydict list) \<times> event list" where
  "search_and_fetch env query limit =
     (case query of
        VStr q \<Rightarrow>
          if strip q = [] then (Inl (ValueError (lit ''Query must be a non-empty string'')), [])
          else
            (case as_int limit of
               None \<Rightarrow> (Inl (ValueError (lit ''Limit must be a positive integer'')), [])
             | Some n \<Rightarrow>
                 if n < 1 then (Inl (ValueError (lit ''Limit must be a positive integer'')), [])
                 else after_search env q (search_duckduckgo env q (min n 10)))
      | _ \<Rightarrow> (Inl (ValueError (lit ''Query must be a non-empty string'')), []))"

text \<open>Lines 159 to 187: the variant without fetching.\<close>

definition search :: "env \<Rightarrow> pyval \<Rightarrow> pyval \<Rightarrow> (exn + pydict list) \<times> event list" where
  "search env query limit =
     (case query of
        VStr q \<Rightarrow>
          if strip q = [] then (Inl (ValueError (lit ''Query must be a non-empty string'')), [])
          else
            (case as_int limit of
               None \<Rightarrow> (Inl (ValueError (lit ''Limit must be a positive integer'')), [])
             | Some n \<Rightarrow>
                 if n < 1 then (Inl (ValueError (lit ''Limit must be a positive integer'')), [])
                 else
                   (case search_duckduckgo env q (min n 10) of
                      (Inl e, log1) \<Rightarrow> (Inl e, log1)
                    | (Inr results, log1) \<Rightarrow>
                        if results = [] then
                          (Inr [[(''message'',
                                  lit ''No results found for '' @ [39] @ q @ [39])]], log1)
                        else (Inr results, log1)))
      | _ \<Rightarrow> (Inl (ValueError (lit ''Query must be a non-empty string'')), []))"

section \<open>Notions used in the statements\<close>


text \<open>A text without leading or trailing whitespace.\<close>

definition trimmed :: "pystr \<Rightarrow> bool" where
  "trimmed s \<longleftrightarrow> s = [] \<or> (\<not> is_space (hd s) \<and> \<not> is_space (last s))"

text \<open>A text in which no two spaces follow each other.\<close>

fun dsp_free :: "pystr \<Rightarrow> bool" where
  "dsp_free [] \<longleftrightarrow> True"
| "dsp_free [c] \<longleftrightarrow> True"
| "dsp_free (c # d # r) \<longleftrightarrow> \<not> (c = 32 \<and> d = 32) \<and> dsp_free (d # r)"

text \<open>
  A non-empty text of one line, without whitespace at either end and without two spaces
  in a row: the shape of every chunk that \<open>normalize\<close> keeps, and of its result.
\<close>

definition clean :: "pystr \<Rightarrow> bool" where
  "clean s \<longleftrightarrow> s \<noteq> [] \<and> \<not> is_space (hd s) \<and> \<not> is_space (last s) \<and> dsp_free s \<and>
     (\<forall>c\<in>set s. \<not> is_linebreak c)"

text \<open>The chunks that \<open>normalize\<close> joins.\<close>

definition chunks_of :: "pystr \<Rightarrow> pystr list" where
  "chunks_of text =
     filter (\<lambda>chunk. chunk \<noteq> [])
       (concat (map (\<lambda>line. map strip (split_two_spaces line)) (map strip (splitlines text))))"

text \<open>
  The specification's reading of the limit in the search step: fragments without a title
  or url element do not count, so the output is built from the first \<open>limit\<close> fragments
  among those that have both.
\<close>

definition spec_first_complete :: "fragment list \<Rightarrow> int \<Rightarrow> pydict list" where
  "spec_first_complete frags limit = map result_dict (take (nat limit) (filter has_both frags))"




section \<open>Properties of the text operations\<close>

lemma is_space_32: "is_space 32" by (simp add: is_space_def)
lemma not_linebreak_32: "\<not> is_linebreak 32" by (simp add: is_linebreak_def)

subsection \<open>strip\<close>

lemma strip_decomp: "\<exists>a b. s = a @ strip s @ b"
proof -
  let ?t = "dropWhile is_space s"
  have 1: "s = takeWhile is_space s @ ?t" by simp
  have "rev (rev ?t) = rev (dropWhile is_space (rev ?t)) @ rev (takeWhile is_space (rev ?t))"
    by (metis rev_append takeWhile_dropWhile_id)
  then have 2: "?t = strip s @ rev (takeWhile is_space (rev ?t))"
    by (simp only: strip_def rev_rev_ident)
  from 1 2 have "s = takeWhile is_space s @ strip s @ rev (takeWhile is_space (rev ?t))"
    by simp
  then show ?thesis by blast
qed

lemma set_strip: "set (strip s) \<subseteq> set s"
proof -
  obtain a b where "s = a @ strip s @ b" using strip_decomp by blast
  then have "set s = set a \<union> set (strip s) \<union> set b" by (metis set_append Un_assoc)
  then show ?thesis by blast
qed

lemma strip_Nil_iff: "strip s = [] \<longleftrightarrow> (\<forall>c\<in>set s. is_space c)"
proof
  assume "strip s = []"
  then have a: "\<forall>c\<in>set (dropWhile is_space s). is_space c"
    by (simp add: strip_def dropWhile_eq_Nil_conv)
  have "dropWhile is_space s = []"
  proof (rule ccontr)
    assume n: "dropWhile is_space s \<noteq> []"
    then have "\<not> is_space (hd (dropWhile is_space s))" by (rule hd_dropWhile)
    with a n show False by (meson hd_in_set)
  qed
  then show "\<forall>c\<in>set s. is_space c" by (simp add: dropWhile_eq_Nil_conv)
next
  assume "\<forall>c\<in>set s. is_space c"
  then show "strip s = []"
    by (auto simp: strip_def dropWhile_eq_Nil_conv dest: set_dropWhileD)
qed

lemma strip_hd: "strip s \<noteq> [] \<Longrightarrow> \<not> is_space (hd (strip s))"
proof -
  assume n: "strip s \<noteq> []"
  let ?t = "dropWhile is_space s"
  let ?u = "dropWhile is_space (rev ?t)"
  have tn: "?t \<noteq> []"
  proof
    assume "?t = []"
    then have "strip s = []" by (simp only: strip_def rev.simps dropWhile.simps)
    with n show False by simp
  qed
  obtain b where b: "?t = strip s @ b"
  proof -
    have "rev (rev ?t) = rev ?u @ rev (takeWhile is_space (rev ?t))"
      by (metis rev_append takeWhile_dropWhile_id)
    then have "?t = strip s @ rev (takeWhile is_space (rev ?t))"
      by (simp only: strip_def rev_rev_ident)
    then show ?thesis using that by blast
  qed
  from b n have "hd ?t = hd (strip s)" by (metis hd_append2)
  moreover from tn have "\<not> is_space (hd ?t)" by (rule hd_dropWhile)
  ultimately show ?thesis by simp
qed

lemma strip_last: "strip s \<noteq> [] \<Longrightarrow> \<not> is_space (last (strip s))"
proof -
  assume n: "strip s \<noteq> []"
  let ?u = "dropWhile is_space (rev (dropWhile is_space s))"
  from n have un: "?u \<noteq> []" by (simp add: strip_def)
  then have "\<not> is_space (hd ?u)" by (rule hd_dropWhile)
  moreover from un have "last (rev ?u) = hd ?u" by (simp add: last_rev)
  ultimately show ?thesis by (simp add: strip_def)
qed

lemma trimmed_strip: "trimmed (strip s)"
  using strip_hd strip_last by (auto simp: trimmed_def)

lemma strip_fixed: "s \<noteq> [] \<Longrightarrow> \<not> is_space (hd s) \<Longrightarrow> \<not> is_space (last s) \<Longrightarrow> strip s = s"
proof -
  assume n: "s \<noteq> []" and h: "\<not> is_space (hd s)" and l: "\<not> is_space (last s)"
  from n h have 1: "dropWhile is_space s = s" by (cases s) auto
  from n l have "\<not> is_space (hd (rev s))" by (simp add: hd_rev)
  with n have 2: "dropWhile is_space (rev s) = rev s" by (cases "rev s") auto
  from 1 2 show ?thesis by (simp add: strip_def)
qed

lemma strip_trimmed: "trimmed s \<Longrightarrow> strip s = s"
  by (cases "s = []") (simp add: strip_def, simp add: trimmed_def strip_fixed)


subsection \<open>splitlines\<close>

lemma splitlines_no_linebreak:
  "l \<in> set (splitlines s) \<Longrightarrow> c \<in> set l \<Longrightarrow> \<not> is_linebreak c"
proof (induction s arbitrary: l rule: splitlines.induct)
  case 1
  then show ?case by simp
next
  case (2 a)
  then show ?case by (auto split: if_splits)
next
  case (3 a d cs)
  show ?case
  proof (cases "a = 13 \<and> d = 10")
    case True
    with 3 show ?thesis by auto
  next
    case False
    show ?thesis
    proof (cases "is_linebreak a")
      case True
      with False 3 show ?thesis by auto
    next
      case nb: False
      from 3(4) False nb have "l \<in> set (cons_line a (splitlines (d # cs)))" by simp
      then consider "l = [a]" | l' where "l = a # l'" "l' \<in> set (splitlines (d # cs))"
        | "l \<in> set (splitlines (d # cs))"
        by (auto simp: cons_line_def split: list.splits)
      then show ?thesis
      proof cases
        case 1
        with nb 3(5) show ?thesis by simp
      next
        case 2
        with nb 3(5) 3(3)[OF False nb] show ?thesis by auto
      next
        case 3
        with nb "3.prems" "3.IH"(3)[OF False nb] show ?thesis by auto
      qed
    qed
  qed
qed

lemma splitlines_single:
  "s \<noteq> [] \<Longrightarrow> \<forall>c\<in>set s. \<not> is_linebreak c \<Longrightarrow> splitlines s = [s]"
proof (induction s rule: splitlines.induct)
  case 1
  then show ?case by simp
next
  case (2 c)
  then show ?case by simp
next
  case (3 c d cs)
  then have nb: "\<not> is_linebreak c" and nd: "\<not> is_linebreak d" by simp_all
  from nb have n13: "\<not> (c = 13 \<and> d = 10)" by (auto simp: is_linebreak_def)
  from 3 n13 nb have "splitlines (d # cs) = [d # cs]" by simp
  with n13 nb show ?case by (simp add: cons_line_def)
qed

subsection \<open>split on two spaces\<close>

lemma split_two_spaces_nonempty: "split_two_spaces s \<noteq> []"
  by (induction s rule: split_two_spaces.induct) (auto simp: cons_line_def split: list.splits)

lemma split_two_spaces_set:
  "p \<in> set (split_two_spaces s) \<Longrightarrow> set p \<subseteq> set s"
proof (induction s arbitrary: p rule: split_two_spaces.induct)
  case 1
  then show ?case by simp
next
  case (2 c)
  then show ?case by simp
next
  case (3 c d cs)
  show ?case
  proof (cases "c = 32 \<and> d = 32")
    case True
    with 3 show ?thesis by auto
  next
    case False
    with 3(3) have "p \<in> set (cons_line c (split_two_spaces (d # cs)))" by simp
    then consider "p = [c]" | p' where "p = c # p'" "p' \<in> set (split_two_spaces (d # cs))"
      | "p \<in> set (split_two_spaces (d # cs))"
      by (auto simp: cons_line_def split: list.splits)
    then show ?thesis
    proof cases
      case 1
      then show ?thesis by simp
    next
      case 2
      with 3(2)[OF False] show ?thesis by auto
    next
      case 3
      with "3.IH"(2)[OF False] show ?thesis by auto
    qed
  qed
qed

lemma split_two_spaces_hd:
  "split_two_spaces s = p # ps \<Longrightarrow> p \<noteq> [] \<Longrightarrow> s \<noteq> [] \<and> hd p = hd s"
proof (cases s rule: split_two_spaces.cases)
  case 1
  assume "split_two_spaces s = p # ps" "p \<noteq> []"
  with 1 show ?thesis by simp
next
  case (2 c)
  assume "split_two_spaces s = p # ps" "p \<noteq> []"
  with 2 show ?thesis by auto
next
  case (3 c d cs)
  assume a: "split_two_spaces s = p # ps" "p \<noteq> []"
  obtain q qs where q: "split_two_spaces (d # cs) = q # qs"
    using split_two_spaces_nonempty by (cases "split_two_spaces (d # cs)") auto
  from a 3 q show ?thesis by (auto simp: cons_line_def split: if_splits)
qed

lemma split_two_spaces_dsp_free:
  "p \<in> set (split_two_spaces s) \<Longrightarrow> dsp_free p"
proof (induction s arbitrary: p rule: split_two_spaces.induct)
  case 1
  then show ?case by simp
next
  case (2 c)
  then show ?case by simp
next
  case (3 c d cs)
  show ?case
  proof (cases "c = 32 \<and> d = 32")
    case True
    with 3 show ?thesis by auto
  next
    case False
    obtain q qs where q: "split_two_spaces (d # cs) = q # qs"
      using split_two_spaces_nonempty by (cases "split_two_spaces (d # cs)") auto
    from "3.prems" False q have "p = c # q \<or> p \<in> set qs" by (simp add: cons_line_def)
    then show ?thesis
    proof
      assume p: "p = c # q"
      have dq: "dsp_free q" using "3.IH"(2)[OF False] q by simp
      show ?thesis
      proof (cases q)
        case Nil
        with p show ?thesis by simp
      next
        case (Cons x xs)
        with q have "hd q = hd (d # cs)" using split_two_spaces_hd by blast
        with Cons have "x = d" by simp
        with False dq Cons p show ?thesis by auto
      qed
    next
      assume "p \<in> set qs"
      then show ?thesis using "3.IH"(2)[OF False] q by simp
    qed
  qed
qed

lemma split_two_spaces_single: "dsp_free s \<Longrightarrow> split_two_spaces s = [s]"
  by (induction s rule: split_two_spaces.induct) (auto simp: cons_line_def)

lemma dsp_free_append:
  "dsp_free (a @ b) \<longleftrightarrow>
     dsp_free a \<and> dsp_free b \<and> \<not> (a \<noteq> [] \<and> b \<noteq> [] \<and> last a = 32 \<and> hd b = 32)"
proof (induction a rule: dsp_free.induct)
  case 1
  then show ?case by simp
next
  case (2 c)
  then show ?case by (cases b) auto
next
  case (3 c d r)
  then show ?case by auto
qed

lemma dsp_free_strip: "dsp_free s \<Longrightarrow> dsp_free (strip s)"
proof -
  assume d: "dsp_free s"
  obtain a b where "s = a @ strip s @ b" using strip_decomp by blast
  with d have "dsp_free (a @ strip s @ b)" by simp
  then show ?thesis by (simp only: dsp_free_append)
qed

subsection \<open>join\<close>

lemma clean_join:
  "cs \<noteq> [] \<Longrightarrow> \<forall>c\<in>set cs. clean c \<Longrightarrow> clean (join [32] cs)"
proof (induction "[32::nat]" cs rule: join.induct)
  case 1
  then show ?case by simp
next
  case (2 x)
  then show ?case by simp
next
  case (3 x y ys)
  let ?J = "join [32] (y # ys)"
  from 3 have cx: "clean x" and cj: "clean ?J" by simp_all
  from cj have hj: "hd ?J \<noteq> 32" "?J \<noteq> []" using is_space_32 by (auto simp: clean_def)
  from cx have lx: "last x \<noteq> 32" "x \<noteq> []" using is_space_32 by (auto simp: clean_def)
  have d1: "dsp_free (32 # ?J)" using hj cj by (cases ?J) (auto simp: clean_def)
  have d2: "dsp_free (x @ 32 # ?J)"
    using cx d1 lx by (simp add: dsp_free_append clean_def)
  have "join [32] (x # y # ys) = x @ 32 # ?J" by simp
  moreover have "clean (x @ 32 # ?J)"
    using cx cj d2 lx hj not_linebreak_32 by (auto simp: clean_def)
  ultimately show ?case by simp
qed

subsection \<open>normalize\<close>

lemma normalize_clean: "clean s \<Longrightarrow> normalize s = s"
proof -
  assume c: "clean s"
  then have 1: "splitlines s = [s]" by (simp add: clean_def splitlines_single)
  from c have 2: "strip s = s" by (simp add: clean_def strip_fixed)
  from c have 3: "split_two_spaces s = [s]" by (simp add: clean_def split_two_spaces_single)
  from c have 4: "s \<noteq> []" by (simp add: clean_def)
  show ?thesis by (simp add: normalize_def 1 2 3 4)
qed

lemma normalize_chunks: "normalize text = join [32] (chunks_of text)"
  by (simp add: normalize_def chunks_of_def)

lemma chunks_clean: "chunk \<in> set (chunks_of text) \<Longrightarrow> clean chunk"
proof -
  assume "chunk \<in> set (chunks_of text)"
  then obtain l p where l: "l \<in> set (splitlines text)"
    and p: "p \<in> set (split_two_spaces (strip l))"
    and ch: "chunk = strip p" and ne: "chunk \<noteq> []"
    by (auto simp: chunks_of_def)
  have "set chunk \<subseteq> set l"
    using set_strip[of p] split_two_spaces_set[OF p] set_strip[of l] ch by blast
  then have nl: "\<forall>c\<in>set chunk. \<not> is_linebreak c"
    using splitlines_no_linebreak[OF l] by blast
  have df: "dsp_free chunk"
    using split_two_spaces_dsp_free[OF p] dsp_free_strip ch by simp
  from ne ch have "\<not> is_space (hd chunk)" "\<not> is_space (last chunk)"
    using strip_hd strip_last by simp_all
  with ne nl df show ?thesis by (simp add: clean_def)
qed

text \<open>
  Claim C4. The clean-up of lines 99 to 101 is idempotent: applied to its own output it
  returns that output unchanged, for every text.
\<close>

theorem C4_normalize_idempotent: "normalize (normalize text) = normalize text"
proof (cases "chunks_of text = []")
  case True
  then have "normalize text = []" by (simp add: normalize_chunks)
  moreover have "normalize [] = []" by (simp add: normalize_def)
  ultimately show ?thesis by simp
next
  case False
  then have "clean (join [32] (chunks_of text))"
    using chunks_clean by (intro clean_join) auto
  then have "clean (normalize text)" by (simp only: normalize_chunks)
  then show ?thesis by (rule normalize_clean)
qed

section \<open>Properties of the search step\<close>

lemma extract_loop_append:
  "extract_loop results rs = results @ map result_dict (filter has_both rs)"
  by (induction rs arbitrary: results) simp_all

lemma length_slice_to: "0 \<le> limit \<Longrightarrow> length (slice_to xs limit) \<le> nat limit"
  by (simp add: slice_to_def)

lemma set_slice_to: "set (slice_to xs limit) \<subseteq> set xs"
  by (auto simp: slice_to_def dest: in_set_takeD)

lemma search_success:
  "search_get env (search_url q) = Inr frags \<Longrightarrow>
   search_duckduckgo env q limit =
     (Inr (map result_dict (filter has_both (slice_to frags limit))), [HttpGet (search_url q)])"
  by (simp add: search_duckduckgo_def search_body_def extract_loop_append)

lemma search_failure:
  "search_get env (search_url q) = Inl e \<Longrightarrow>
   search_duckduckgo env q limit =
     (Inr [[(''error'',
             (case e of TimeoutException m \<Rightarrow> lit ''Request timed out''
              | _ \<Rightarrow> lit ''Search failed: '' @ str_exn e))]],
      [HttpGet (search_url q)])"
  by (simp add: search_duckduckgo_def search_body_def split: exn.splits)

lemma search_and_fetch_failure:
  "strip q \<noteq> [] \<Longrightarrow> as_int limit = Some n \<Longrightarrow> 1 \<le> n \<Longrightarrow>
   search_get env (search_url q) = Inl e \<Longrightarrow>
   search_and_fetch env (VStr q) limit = (Inl (KeyError ''url''), [HttpGet (search_url q)])"
  by (simp add: search_and_fetch_def search_failure after_search_def dict_get_def)

lemma search_variant_failure:
  "strip q \<noteq> [] \<Longrightarrow> as_int limit = Some n \<Longrightarrow> 1 \<le> n \<Longrightarrow>
   search_get env (search_url q) = Inl e \<Longrightarrow>
   search env (VStr q) limit = search_duckduckgo env q (min n 10)"
  by (simp add: search_def search_failure)

lemma strip_rust: "strip (lit ''rust'') = lit ''rust''"
  by (simp add: strip_def lit_def is_space_def)

text \<open>
  Claim C1. Every failure of the search step makes \<open>search_duckduckgo\<close> return a
  one-element error marker (lemma \<open>search_failure\<close>). The claim goes on to say that
  \<open>search_and_fetch\<close> returns that marker unchanged and raises nothing. The code does
  otherwise (lemma \<open>search_and_fetch_failure\<close>): when the search request times out, for
  the query \<open>rust\<close> and the limit 3, \<open>search_and_fetch\<close> raises \<open>KeyError\<close> for the key
  \<open>url\<close> at line 147, after the search request and before any page request, while the
  variant \<open>search\<close> returns the marker.
\<close>

theorem C1_search_failure_raises:
  "fst (search_duckduckgo (const_env (Inl (TimeoutException [])) (Inr [])) (lit ''rust'') 3)
     = Inr [[(''error'', lit ''Request timed out'')]] \<and>
   search_and_fetch (const_env (Inl (TimeoutException [])) (Inr [])) (VStr (lit ''rust'')) (VInt 3)
     = (Inl (KeyError ''url''), [HttpGet (search_url (lit ''rust''))]) \<and>
   search (const_env (Inl (TimeoutException [])) (Inr [])) (VStr (lit ''rust'')) (VInt 3)
     = (Inr [[(''error'', lit ''Request timed out'')]], [HttpGet (search_url (lit ''rust''))])"
proof -
  let ?env = "const_env (Inl (TimeoutException [])) (Inr [])"
  have g: "search_get ?env (search_url (lit ''rust'')) = Inl (TimeoutException [])"
    by (simp add: const_env_def)
  have n: "strip (lit ''rust'') \<noteq> []" unfolding strip_rust by (simp add: lit_def)
  have a: "as_int (VInt 3) = Some 3" by simp
  have 1: "search_duckduckgo ?env (lit ''rust'') 3
     = (Inr [[(''error'', lit ''Request timed out'')]], [HttpGet (search_url (lit ''rust''))])"
    using search_failure[OF g, of 3] by simp
  have 2: "search_and_fetch ?env (VStr (lit ''rust'')) (VInt 3)
     = (Inl (KeyError ''url''), [HttpGet (search_url (lit ''rust''))])"
    using search_and_fetch_failure[OF n a _ g] by simp
  have 3: "search ?env (VStr (lit ''rust'')) (VInt 3) = search_duckduckgo ?env (lit ''rust'') 3"
    using search_variant_failure[OF n a _ g] by simp
  from 1 2 3 show ?thesis by simp
qed


lemma has_both_result_dict:
  "has_both f \<Longrightarrow>
   \<exists>t u. title_elem f = Some t \<and> url_elem f = Some u \<and>
     result_dict f = [(''title'', strip t), (''url'', strip u),
          (''snippet'', (case snippet_elem f of Some s \<Rightarrow> strip s | None \<Rightarrow> []))]"
  by (auto simp: has_both_def result_dict_def)

lemma record_origin:
  assumes "d \<in> set (map result_dict (filter has_both (slice_to frags limit)))"
  shows "\<exists>f t u. f \<in> set frags \<and> title_elem f = Some t \<and> url_elem f = Some u \<and>
     d = [(''title'', strip t), (''url'', strip u),
          (''snippet'', (case snippet_elem f of Some s \<Rightarrow> strip s | None \<Rightarrow> []))]"
proof -
  from assms obtain f where f: "f \<in> set (slice_to frags limit)" "has_both f" "d = result_dict f"
    by auto
  from f(1) have ff: "f \<in> set frags" by (rule set_slice_to[THEN subsetD])
  from has_both_result_dict[OF f(2)] obtain t u where
    tu: "title_elem f = Some t \<and> url_elem f = Some u \<and>
     result_dict f = [(''title'', strip t), (''url'', strip u),
          (''snippet'', (case snippet_elem f of Some s \<Rightarrow> strip s | None \<Rightarrow> []))]"
    by (elim exE)
  show ?thesis
    apply (rule exI[where x = f])
    apply (rule exI[where x = t])
    apply (rule exI[where x = u])
    using ff tu f(3) apply simp
    done
qed

section \<open>The claims about the search step\<close>

text \<open>
  Claim C2, as amended. \<open>search_duckduckgo\<close> takes the first \<open>limit\<close> fragments of the
  page and then drops those without a title or url element, so a dropped fragment still
  counts toward \<open>limit\<close>. For every page and every limit the output is built, in document
  order, from the fragments of \<open>result_elements[:limit]\<close> that have both elements; for a
  non-negative limit it has at most \<open>limit\<close> records, and exactly \<open>limit\<close> when the page
  has at least \<open>limit\<close> fragments and each of the first \<open>limit\<close> has both elements.
\<close>

theorem C2_limit_then_skip:
  assumes "search_get env (search_url q) = Inr frags"
  shows "fst (search_duckduckgo env q limit)
           = Inr (map result_dict (filter has_both (slice_to frags limit))) \<and>
         (0 \<le> limit \<longrightarrow>
            length (map result_dict (filter has_both (slice_to frags limit))) \<le> nat limit \<and>
            (nat limit \<le> length frags \<and> (\<forall>f\<in>set (take (nat limit) frags). has_both f) \<longrightarrow>
             length (map result_dict (filter has_both (slice_to frags limit))) = nat limit))"
proof -
  have 1: "fst (search_duckduckgo env q limit)
           = Inr (map result_dict (filter has_both (slice_to frags limit)))"
    using search_success[OF assms] by simp
  have 2: "length (map result_dict (filter has_both (slice_to frags limit))) \<le> nat limit"
    if "0 \<le> limit"
  proof -
    have "length (filter has_both (slice_to frags limit)) \<le> length (slice_to frags limit)"
      by (rule length_filter_le)
    also have "\<dots> \<le> nat limit" using that by (rule length_slice_to)
    finally show ?thesis by simp
  qed
  have 3: "length (map result_dict (filter has_both (slice_to frags limit))) = nat limit"
    if "0 \<le> limit" "nat limit \<le> length frags" "\<forall>f\<in>set (take (nat limit) frags). has_both f"
  proof -
    from that(1) have s: "slice_to frags limit = take (nat limit) frags"
      by (simp add: slice_to_def)
    from that(3) have "filter has_both (take (nat limit) frags) = take (nat limit) frags"
      by (simp add: filter_id_conv)
    with s that(2) show ?thesis by simp
  qed
  show ?thesis
  proof (intro conjI impI)
    show "fst (search_duckduckgo env q limit)
           = Inr (map result_dict (filter has_both (slice_to frags limit)))" by (rule 1)
  next
    assume "0 \<le> limit"
    then show "length (map result_dict (filter has_both (slice_to frags limit))) \<le> nat limit"
      by (rule 2)
  next
    assume "0 \<le> limit"
      and "nat limit \<le> length frags \<and> (\<forall>f\<in>set (take (nat limit) frags). has_both f)"
    then show "length (map result_dict (filter has_both (slice_to frags limit))) = nat limit"
      using 3 by simp
  qed
qed

theorem C2_limit_then_skip_witness:
  "fst (search_duckduckgo
          (const_env (Inr [\<lparr>title_elem = Some (lit '' Rust ''), url_elem = Some (lit ''rust-lang.org''),
                           snippet_elem = None\<rparr>,
                          \<lparr>title_elem = None, url_elem = Some (lit ''example.com''),
                           snippet_elem = None\<rparr>]) (Inr []))
          (lit ''rust'') 1)
     = Inr [[(''title'', lit ''Rust''), (''url'', lit ''rust-lang.org''), (''snippet'', [])]]"
proof -
  let ?page = "[\<lparr>title_elem = Some (lit '' Rust ''), url_elem = Some (lit ''rust-lang.org''),
                           snippet_elem = None\<rparr>,
                          \<lparr>title_elem = None, url_elem = Some (lit ''example.com''),
                           snippet_elem = None\<rparr>]"
  have g: "search_get (const_env (Inr ?page) (Inr [])) (search_url (lit ''rust'')) = Inr ?page"
    by (simp add: const_env_def)
  show ?thesis
    using C2_limit_then_skip[OF g, of 1]
    by (simp add: slice_to_def has_both_def result_dict_def strip_def lit_def is_space_def)
qed

theorem C2_skipped_counts_counterexample:
  "length (filter has_both
      [\<lparr>title_elem = None, url_elem = Some (lit ''example.com''), snippet_elem = None\<rparr>,
       \<lparr>title_elem = Some (lit ''Rust''), url_elem = Some (lit ''rust-lang.org''),
        snippet_elem = None\<rparr>]) = 1 \<and>
   spec_first_complete
      [\<lparr>title_elem = None, url_elem = Some (lit ''example.com''), snippet_elem = None\<rparr>,
       \<lparr>title_elem = Some (lit ''Rust''), url_elem = Some (lit ''rust-lang.org''),
        snippet_elem = None\<rparr>] 1
     = [[(''title'', lit ''Rust''), (''url'', lit ''rust-lang.org''), (''snippet'', [])]] \<and>
   fst (search_duckduckgo
          (const_env (Inr [\<lparr>title_elem = None, url_elem = Some (lit ''example.com''),
                           snippet_elem = None\<rparr>,
                          \<lparr>title_elem = Some (lit ''Rust''), url_elem = Some (lit ''rust-lang.org''),
                           snippet_elem = None\<rparr>]) (Inr []))
          (lit ''rust'') 1)
     = Inr []"
  by (simp add: search_duckduckgo_def search_body_def const_env_def slice_to_def has_both_def
      spec_first_complete_def result_dict_def strip_def lit_def is_space_def)

text \<open>
  Claim C5, as amended. For every non-empty query and every limit from 1 to 10, a
  successful search returns at most \<open>limit\<close> records, and every record has a title and a
  url entry: the stripped texts of a title element and a url element that are both
  present in one fragment of the page. Such an entry is non-empty exactly when the text
  of its element has a character that is not whitespace; the code tests the presence of
  the elements, not their texts.
\<close>

theorem C5_at_most_limit_records:
  assumes "q \<noteq> []" and "1 \<le> limit" and "limit \<le> 10"
    and "search_get env (search_url q) = Inr frags"
  shows "\<exists>rs. fst (search_duckduckgo env q limit) = Inr rs \<and> length rs \<le> nat limit \<and>
           (\<forall>d\<in>set rs. \<exists>f t u. f \<in> set frags \<and> title_elem f = Some t \<and> url_elem f = Some u \<and>
              dict_get d ''title'' = Inr (strip t) \<and> dict_get d ''url'' = Inr (strip u) \<and>
              (strip t \<noteq> [] \<longleftrightarrow> (\<exists>c\<in>set t. \<not> is_space c)) \<and>
              (strip u \<noteq> [] \<longleftrightarrow> (\<exists>c\<in>set u. \<not> is_space c)))"
proof -
  let ?rs = "map result_dict (filter has_both (slice_to frags limit))"
  have 1: "fst (search_duckduckgo env q limit) = Inr ?rs"
    using search_success[OF assms(4)] by simp
  have "length (filter has_both (slice_to frags limit)) \<le> length (slice_to frags limit)"
    by (rule length_filter_le)
  also have "\<dots> \<le> nat limit" using assms(2) by (intro length_slice_to) simp
  finally have 2: "length ?rs \<le> nat limit" by simp
  have 3: "\<exists>f t u. f \<in> set frags \<and> title_elem f = Some t \<and> url_elem f = Some u \<and>
              dict_get d ''title'' = Inr (strip t) \<and> dict_get d ''url'' = Inr (strip u) \<and>
              (strip t \<noteq> [] \<longleftrightarrow> (\<exists>c\<in>set t. \<not> is_space c)) \<and>
              (strip u \<noteq> [] \<longleftrightarrow> (\<exists>c\<in>set u. \<not> is_space c))"
    if "d \<in> set ?rs" for d
  proof -
    from record_origin[OF that] obtain f t u where o: "f \<in> set frags" "title_elem f = Some t"
      "url_elem f = Some u"
      "d = [(''title'', strip t), (''url'', strip u),
          (''snippet'', (case snippet_elem f of Some s \<Rightarrow> strip s | None \<Rightarrow> []))]"
      by blast
    from o(4) have "dict_get d ''title'' = Inr (strip t)" "dict_get d ''url'' = Inr (strip u)"
      by (simp_all add: dict_get_def)
    with o(1-3) show ?thesis using strip_Nil_iff by blast
  qed
  from 1 2 3 show ?thesis by blast
qed


theorem C5_at_most_limit_records_witness:
  "\<exists>rs. fst (search_duckduckgo
          (const_env (Inr [\<lparr>title_elem = Some (lit '' Rust ''), url_elem = Some (lit ''rust-lang.org''),
                           snippet_elem = None\<rparr>,
                          \<lparr>title_elem = Some (lit ''The Book''), url_elem = Some (lit ''doc.rust-lang.org''),
                           snippet_elem = Some (lit ''Read it'')\<rparr>,
                          \<lparr>title_elem = Some (lit ''Crates''), url_elem = Some (lit ''crates.io''),
                           snippet_elem = None\<rparr>]) (Inr []))
          (lit ''rust programming'') 2) = Inr rs \<and> length rs \<le> 2"
proof -
  let ?page = "[\<lparr>title_elem = Some (lit '' Rust ''), url_elem = Some (lit ''rust-lang.org''),
                           snippet_elem = None\<rparr>,
                          \<lparr>title_elem = Some (lit ''The Book''), url_elem = Some (lit ''doc.rust-lang.org''),
                           snippet_elem = Some (lit ''Read it'')\<rparr>,
                          \<lparr>title_elem = Some (lit ''Crates''), url_elem = Some (lit ''crates.io''),
                           snippet_elem = None\<rparr>]"
  have g: "search_get (const_env (Inr ?page) (Inr [])) (search_url (lit ''rust programming''))
             = Inr ?page"
    by (simp add: const_env_def)
  have q: "lit ''rust programming'' \<noteq> []" by (simp add: lit_def)
  from C5_at_most_limit_records[OF q _ _ g, of 2] show ?thesis by auto
qed

theorem C5_empty_title_counterexample:
  "fst (search_duckduckgo
          (const_env (Inr [\<lparr>title_elem = Some [], url_elem = Some (lit ''example.com''),
                           snippet_elem = None\<rparr>]) (Inr []))
          (lit ''rust'') 1)
     = Inr [[(''title'', []), (''url'', lit ''example.com''), (''snippet'', [])]] \<and>
   dict_get [(''title'', []), (''url'', lit ''example.com''), (''snippet'', [])] ''title'' = Inr []"
  by (simp add: search_duckduckgo_def search_body_def const_env_def slice_to_def has_both_def
      result_dict_def strip_def lit_def is_space_def dict_get_def)

text \<open>
  Claim C10. In every record of a successful search the title, url and snippet are the
  stripped texts of the elements of one fragment of the page (the snippet is empty when
  the fragment has no snippet element), and none of the three begins or ends with
  whitespace.
\<close>

theorem C10_values_stripped:
  assumes "search_get env (search_url q) = Inr frags"
    and "fst (search_duckduckgo env q limit) = Inr rs" and "d \<in> set rs"
  shows "\<exists>f t u. f \<in> set frags \<and> title_elem f = Some t \<and> url_elem f = Some u \<and>
           d = [(''title'', strip t), (''url'', strip u),
                (''snippet'', (case snippet_elem f of Some s \<Rightarrow> strip s | None \<Rightarrow> []))] \<and>
           trimmed (strip t) \<and> trimmed (strip u) \<and>
           trimmed (case snippet_elem f of Some s \<Rightarrow> strip s | None \<Rightarrow> [])"
proof -
  from search_success[OF assms(1), of limit] assms(2)
  have "rs = map result_dict (filter has_both (slice_to frags limit))" by simp
  with assms(3) have "d \<in> set (map result_dict (filter has_both (slice_to frags limit)))"
    by simp
  from record_origin[OF this] obtain f t u where
    o: "f \<in> set frags \<and> title_elem f = Some t \<and> url_elem f = Some u \<and>
     d = [(''title'', strip t), (''url'', strip u),
          (''snippet'', (case snippet_elem f of Some s \<Rightarrow> strip s | None \<Rightarrow> []))]"
    by (elim exE)
  have s: "trimmed (case snippet_elem f of Some s \<Rightarrow> strip s | None \<Rightarrow> [])"
    by (cases "snippet_elem f") (simp_all add: trimmed_strip, simp add: trimmed_def)
  show ?thesis
    apply (rule exI[where x = f])
    apply (rule exI[where x = t])
    apply (rule exI[where x = u])
    using o s trimmed_strip apply simp
    done
qed

theorem C10_values_stripped_witness:
  "trimmed (lit ''Rust'') \<and>
   fst (search_duckduckgo
          (const_env (Inr [\<lparr>title_elem = Some (lit '' Rust ''), url_elem = Some (lit ''rust-lang.org ''),
                           snippet_elem = None\<rparr>]) (Inr []))
          (lit ''rust'') 1)
     = Inr [[(''title'', lit ''Rust''), (''url'', lit ''rust-lang.org''), (''snippet'', [])]]"
proof -
  let ?f = "\<lparr>title_elem = Some (lit '' Rust ''), url_elem = Some (lit ''rust-lang.org ''),
                           snippet_elem = None\<rparr>"
  let ?d = "[(''title'', lit ''Rust''), (''url'', lit ''rust-lang.org''), (''snippet'', [])]"
  let ?env = "const_env (Inr [?f]) (Inr [])"
  have g: "search_get ?env (search_url (lit ''rust'')) = Inr [?f]"
    by (simp add: const_env_def)
  have r: "fst (search_duckduckgo ?env (lit ''rust'') 1) = Inr [?d]"
    by (simp add: search_duckduckgo_def search_body_def const_env_def slice_to_def has_both_def
      result_dict_def strip_def lit_def is_space_def)
  have m: "?d \<in> set [?d]" by simp
  from C10_values_stripped[OF g r m] have "trimmed (lit ''Rust'')"
    by (simp add: strip_def lit_def is_space_def)
  with r show ?thesis by simp
qed

section \<open>The claims about fetch_url\<close>

lemma dsp_free_no_space: "\<forall>c\<in>set s. c \<noteq> 32 \<Longrightarrow> dsp_free s"
  by (induction s rule: dsp_free.induct) simp_all

lemma clean_replicate: "0 < n \<Longrightarrow> \<not> is_space c \<Longrightarrow> \<not> is_linebreak c \<Longrightarrow> clean (replicate n c)"
proof -
  assume n: "0 < n" and s: "\<not> is_space c" and l: "\<not> is_linebreak c"
  from s have "c \<noteq> 32" using is_space_32 by auto
  then have "dsp_free (replicate n c)" by (intro dsp_free_no_space) simp
  moreover from n have "replicate n c \<noteq> []" by simp
  moreover from n have "hd (replicate n c) = c" by (simp add: hd_replicate)
  moreover from n have "last (replicate n c) = c" by (simp add: last_replicate)
  ultimately show ?thesis using s l by (simp add: clean_def)
qed

lemma fetch_success:
  "page_get env (request_url url) = Inr text \<Longrightarrow>
   fst (fetch_url env url) = Inr (truncate (normalize text))"
  by (simp add: fetch_url_def fetch_body_def Let_def)


text \<open>
  Claim C3. When the request succeeds and the cleaned-up text has more than 10,000
  characters, \<open>fetch_url\<close> returns its first 10,000 characters followed by the marker
  \<open>... [content truncated]\<close>: the result has 10,000 characters plus those of the marker
  (23), and its first 10,000 are those of the text. A cleaned-up text of at most 10,000
  characters is returned as it is.
\<close>

theorem C3_truncation:
  assumes "page_get env (request_url url) = Inr text"
  shows "(10000 < length (normalize text) \<longrightarrow>
            (\<exists>r. fst (fetch_url env url) = Inr r \<and>
                 r = take 10000 (normalize text) @ lit ''... [content truncated]'' \<and>
                 take 10000 r = take 10000 (normalize text) \<and>
                 length r = 10000 + length (lit ''... [content truncated]'') \<and>
                 length r = 10023)) \<and>
         (length (normalize text) \<le> 10000 \<longrightarrow> fst (fetch_url env url) = Inr (normalize text))"
proof (intro conjI impI)
  assume long: "10000 < length (normalize text)"
  let ?r = "take 10000 (normalize text) @ lit ''... [content truncated]''"
  from long have 1: "fst (fetch_url env url) = Inr ?r"
    using fetch_success[OF assms] by (simp add: truncate_def truncation_marker_def)
  from long have 2: "take 10000 ?r = take 10000 (normalize text)" by simp
  from long have 3: "length ?r = 10000 + length (lit ''... [content truncated]'')" by simp
  have "length (lit ''... [content truncated]'') = 23" by (simp add: lit_def)
  with 3 have 4: "length ?r = 10023" by simp
  from 1 2 3 4 show "\<exists>r. fst (fetch_url env url) = Inr r \<and>
                 r = take 10000 (normalize text) @ lit ''... [content truncated]'' \<and>
                 take 10000 r = take 10000 (normalize text) \<and>
                 length r = 10000 + length (lit ''... [content truncated]'') \<and>
                 length r = 10023"
    by (intro exI[where x = ?r] conjI) simp_all
next
  assume "length (normalize text) \<le> 10000"
  then show "fst (fetch_url env url) = Inr (normalize text)"
    using fetch_success[OF assms] by (simp add: truncate_def)
qed

theorem C3_truncation_witness:
  "fst (fetch_url (const_env (Inr []) (Inr (replicate 10001 97))) (lit ''example.com''))
     = Inr (replicate 10000 97 @ lit ''... [content truncated]'') \<and>
   fst (fetch_url (const_env (Inr []) (Inr (replicate 10000 97))) (lit ''example.com''))
     = Inr (replicate 10000 97)"
proof -
  have c: "clean (replicate n 97)" if "0 < n" for n
    using that by (intro clean_replicate) (simp_all add: is_space_def is_linebreak_def)
  have n1: "normalize (replicate 10001 97) = replicate 10001 97"
    by (rule normalize_clean) (simp add: c)
  have n2: "normalize (replicate 10000 97) = replicate 10000 97"
    by (rule normalize_clean) (simp add: c)
  have g1: "page_get (const_env (Inr []) (Inr (replicate 10001 97))) (request_url (lit ''example.com''))
              = Inr (replicate 10001 97)"
    by (simp add: const_env_def)
  have g2: "page_get (const_env (Inr []) (Inr (replicate 10000 97))) (request_url (lit ''example.com''))
              = Inr (replicate 10000 97)"
    by (simp add: const_env_def)
  from C3_truncation[OF g1] C3_truncation[OF g2] show ?thesis
    by (simp add: n1 n2)
qed

text \<open>
  Claim C8. \<open>fetch_url\<close> never raises an exception of the request to its caller: it
  always returns a text. A timeout gives exactly
  \<open>Error: Request timed out while fetching the webpage\<close>, an HTTP status error gives
  \<open>Error: HTTP\<close>, the status code, \<open>-\<close> and the reason phrase, and every other exception
  gives \<open>Error: Failed to fetch webpage -\<close> followed by its description.
\<close>

theorem C8_fetch_errors:
  "(\<exists>s. fst (fetch_url env url) = Inr s) \<and>
   (\<forall>m. page_get env (request_url url) = Inl (TimeoutException m) \<longrightarrow>
      fst (fetch_url env url) = Inr (lit ''Error: Request timed out while fetching the webpage'')) \<and>
   (\<forall>code reason m. page_get env (request_url url) = Inl (HTTPStatusError code reason m) \<longrightarrow>
      fst (fetch_url env url) = Inr (lit ''Error: HTTP '' @ str_int code @ lit '' - '' @ reason)) \<and>
   (\<forall>e. page_get env (request_url url) = Inl e \<longrightarrow>
      (\<forall>m. e \<noteq> TimeoutException m) \<longrightarrow> (\<forall>code reason m. e \<noteq> HTTPStatusError code reason m) \<longrightarrow>
      fst (fetch_url env url) = Inr (lit ''Error: Failed to fetch webpage - '' @ str_exn e))"
  by (auto simp: fetch_url_def fetch_body_def Let_def split: sum.splits exn.splits)

theorem C8_fetch_errors_witness:
  "fst (fetch_url (const_env (Inr []) (Inl (TimeoutException []))) (lit ''example.com''))
     = Inr (lit ''Error: Request timed out while fetching the webpage'') \<and>
   fst (fetch_url (const_env (Inr []) (Inl (HTTPStatusError 404 (lit ''Not Found'') [])))
          (lit ''example.com''))
     = Inr (lit ''Error: HTTP 404 - Not Found'') \<and>
   fst (fetch_url (const_env (Inr []) (Inl (OtherException (lit ''connection refused''))))
          (lit ''example.com''))
     = Inr (lit ''Error: Failed to fetch webpage - connection refused'')"
proof -
  have s: "str_int 404 = lit ''404''" by (simp add: str_int_def str_nat.simps lit_def)
  have 1: "fst (fetch_url (const_env (Inr []) (Inl (TimeoutException []))) (lit ''example.com''))
     = Inr (lit ''Error: Request timed out while fetching the webpage'')"
    using C8_fetch_errors[of "const_env (Inr []) (Inl (TimeoutException []))" "lit ''example.com''"]
    by (simp add: const_env_def)
  have 2: "fst (fetch_url (const_env (Inr []) (Inl (HTTPStatusError 404 (lit ''Not Found'') [])))
          (lit ''example.com''))
     = Inr (lit ''Error: HTTP 404 - Not Found'')"
    using C8_fetch_errors[of "const_env (Inr []) (Inl (HTTPStatusError 404 (lit ''Not Found'') []))"
        "lit ''example.com''"]
    by (simp add: const_env_def s) (simp add: lit_def)
  have 3: "fst (fetch_url (const_env (Inr []) (Inl (OtherException (lit ''connection refused''))))
          (lit ''example.com''))
     = Inr (lit ''Error: Failed to fetch webpage - connection refused'')"
    using C8_fetch_errors[of "const_env (Inr []) (Inl (OtherException (lit ''connection refused'')))"
        "lit ''example.com''"]
    by (simp add: const_env_def) (simp add: lit_def)
  from 1 2 3 show ?thesis by (intro conjI)
qed




section \<open>The claims about search_and_fetch\<close>

text \<open>
  Claim C6. For a valid query and every integer limit above 10, \<open>search_and_fetch\<close>
  calls the search step with the limit 10, and goes on with what that call returns.
\<close>

theorem C6_clamp:
  "strip q \<noteq> [] \<Longrightarrow> 10 < n \<Longrightarrow>
   search_and_fetch env (VStr q) (VInt n) = after_search env q (search_duckduckgo env q 10)"
  by (simp add: search_and_fetch_def)

theorem C6_clamp_witness:
  "search_and_fetch (const_env (Inr []) (Inr [])) (VStr (lit ''rust'')) (VInt 50)
     = after_search (const_env (Inr []) (Inr [])) (lit ''rust'')
         (search_duckduckgo (const_env (Inr []) (Inr [])) (lit ''rust'') 10) \<and>
   search_and_fetch (const_env (Inr []) (Inr [])) (VStr (lit ''rust'')) (VInt 50)
     = (Inr [[(''message'', lit ''No results found for '' @ [39] @ lit ''rust'' @ [39])]],
        [HttpGet (search_url (lit ''rust''))])"
proof -
  have n: "strip (lit ''rust'') \<noteq> []" unfolding strip_rust by (simp add: lit_def)
  have 1: "search_and_fetch (const_env (Inr []) (Inr [])) (VStr (lit ''rust'')) (VInt 50)
     = after_search (const_env (Inr []) (Inr [])) (lit ''rust'')
         (search_duckduckgo (const_env (Inr []) (Inr [])) (lit ''rust'') 10)"
    using C6_clamp[OF n, of 50] by simp
  have 2: "after_search (const_env (Inr []) (Inr [])) (lit ''rust'')
         (search_duckduckgo (const_env (Inr []) (Inr [])) (lit ''rust'') 10)
     = (Inr [[(''message'', lit ''No results found for '' @ [39] @ lit ''rust'' @ [39])]],
        [HttpGet (search_url (lit ''rust''))])"
    by (simp add: after_search_def search_duckduckgo_def search_body_def const_env_def
        slice_to_def)
  from 1 2 show ?thesis by simp
qed

text \<open>
  Claim C7. For every query that is empty or has only whitespace characters (and for
  every query that is not a text), and for every limit that is not an integer of at
  least 1, \<open>search_and_fetch\<close> raises \<open>ValueError\<close> and has made no request nor any
  other effect by then.
\<close>

theorem C7_invalid_arguments:
  "(\<forall>q. query = VStr q \<longrightarrow> (\<forall>c\<in>set q. is_space c)) \<or> (\<forall>n. as_int limit = Some n \<longrightarrow> n < 1) \<Longrightarrow>
   \<exists>m. search_and_fetch env query limit = (Inl (ValueError m), [])"
  by (auto simp: search_and_fetch_def strip_Nil_iff split: pyval.splits option.splits)

theorem C7_invalid_arguments_witness:
  "(\<exists>m. search_and_fetch (const_env (Inr []) (Inr [])) (VStr []) (VInt 3)
         = (Inl (ValueError m), [])) \<and>
   (\<exists>m. search_and_fetch (const_env (Inr []) (Inr [])) (VStr [32, 9, 10]) (VInt 3)
         = (Inl (ValueError m), [])) \<and>
   (\<exists>m. search_and_fetch (const_env (Inr []) (Inr [])) (VStr (lit ''rust'')) (VInt 0)
         = (Inl (ValueError m), [])) \<and>
   (\<exists>m. search_and_fetch (const_env (Inr []) (Inr [])) (VStr (lit ''rust'')) VNone
         = (Inl (ValueError m), []))"
proof (intro conjI)
  show "\<exists>m. search_and_fetch (const_env (Inr []) (Inr [])) (VStr []) (VInt 3)
         = (Inl (ValueError m), [])"
    by (rule C7_invalid_arguments) simp
  show "\<exists>m. search_and_fetch (const_env (Inr []) (Inr [])) (VStr [32, 9, 10]) (VInt 3)
         = (Inl (ValueError m), [])"
    by (rule C7_invalid_arguments) (simp add: is_space_def)
  show "\<exists>m. search_and_fetch (const_env (Inr []) (Inr [])) (VStr (lit ''rust'')) (VInt 0)
         = (Inl (ValueError m), [])"
    by (rule C7_invalid_arguments) simp
  show "\<exists>m. search_and_fetch (const_env (Inr []) (Inr [])) (VStr (lit ''rust'')) VNone
         = (Inl (ValueError m), [])"
    by (rule C7_invalid_arguments) simp
qed

end
